theory Spec2Isabelle
  imports Main "HOL-Library.Multiset"
begin

section \<open>A shallow embedding of the shell of \<^verbatim>\<open>zarembmj_shell.cpp\<close>\<close>

text \<open>
  The program reads lines, runs each one as an external command, and has two composite
  verbs, \<^verbatim>\<open>SERIAL\<close> and \<^verbatim>\<open>PARALLEL\<close>, that run the commands of a script (a local file or
  an \<^verbatim>\<open>http://\<close> URL) one after the other or all at once. Every function of the source
  file is translated below under its own name. Strings are \<^typ>\<open>string\<close>, the vector of
  words \<^verbatim>\<open>StrVec\<close> (declared in \<^verbatim>\<open>ChildProcess.h\<close>) is a list, \<^verbatim>\<open>size_t\<close> is a natural number
  below \<open>2 ^ 64\<close> with the wrap-around written out, an input stream is the list of the lines
  that \<^verbatim>\<open>std::getline\<close> will read from it, and what the program does to the outside (text
  on \<^verbatim>\<open>std::cout\<close>, children forked and waited for, files and connections opened) is a
  list of events.
\<close>

subsection \<open>Strings: \<^verbatim>\<open>size_t\<close>, \<^verbatim>\<open>find\<close> and \<^verbatim>\<open>substr\<close>\<close>

type_synonym StrVec = "string list"

text \<open>\<^verbatim>\<open>std::string::npos\<close> is \<^verbatim>\<open>size_t(-1)\<close>, the largest 64-bit value.\<close>

definition npos :: nat where
  "npos = 18446744073709551615"

text \<open>Addition and subtraction of \<^verbatim>\<open>size_t\<close> values wrap modulo \<open>2 ^ 64\<close>.\<close>

definition add_sz :: "nat \<Rightarrow> nat \<Rightarrow> nat" where
  "add_sz a b = (a + b) mod 18446744073709551616"

definition sub_sz :: "nat \<Rightarrow> nat \<Rightarrow> nat" where
  "sub_sz a b = (a + 18446744073709551616 - b mod 18446744073709551616) mod 18446744073709551616"

text \<open>
  \<open>find_at pat i s\<close> scans \<open>s\<close>, whose first character has index \<open>i\<close> in the whole string,
  for the first place where \<open>pat\<close> starts; it gives \<^const>\<open>npos\<close> when there is none.
\<close>

primrec find_at :: "string \<Rightarrow> nat \<Rightarrow> string \<Rightarrow> nat" where
  "find_at pat i [] = (if pat = [] then i else npos)"
| "find_at pat i (c # cs) =
     (if take (length pat) (c # cs) = pat then i else find_at pat (Suc i) cs)"

text \<open>\<^verbatim>\<open>s.find(pat, pos)\<close>: the search starts at index \<open>pos\<close>; a start beyond the end finds nothing.\<close>

definition find_str :: "string \<Rightarrow> nat \<Rightarrow> string \<Rightarrow> nat" where
  "find_str pat pos s = (if length s < pos then npos else find_at pat pos (drop pos s))"

text \<open>\<^verbatim>\<open>s.find(c, pos)\<close> for one character.\<close>

definition find_chr :: "char \<Rightarrow> nat \<Rightarrow> string \<Rightarrow> nat" where
  "find_chr c pos s = find_str [c] pos s"

text \<open>
  The faults of the program. \<open>IndexOutOfRange\<close> is \<^verbatim>\<open>operator[]\<close> of a vector at an index
  that is not below its size. That read is undefined behaviour in C++: the fault marks the
  place where it happens, and the model says nothing of what the program does after it.
  \<open>SubstrOutOfRange\<close> is the exception \<^verbatim>\<open>std::out_of_range\<close> that \<^verbatim>\<open>substr\<close> throws; nothing
  in the program catches it.
\<close>

datatype fault = IndexOutOfRange | SubstrOutOfRange

text \<open>\<^verbatim>\<open>s.substr(pos, n)\<close> throws when \<open>pos\<close> is beyond the end, and is cut at the end otherwise.\<close>

definition substr :: "string \<Rightarrow> nat \<Rightarrow> nat \<Rightarrow> fault + string" where
  "substr s pos n = (if length s < pos then Inl SubstrOutOfRange else Inr (take n (drop pos s)))"

subsection \<open>The tokenizer \<^verbatim>\<open>split\<close>\<close>

text \<open>White space of the classic locale, which the extraction operators skip.\<close>

definition isspace :: "char \<Rightarrow> bool" where
  "isspace c = (c = CHR '' '' \<or> c = CHR 0x09 \<or> c = CHR 0x0A \<or> c = CHR 0x0B
                \<or> c = CHR 0x0C \<or> c = CHR 0x0D)"

text \<open>
  \<^verbatim>\<open>is >> std::quoted(word)\<close> after an opening quote: characters are taken as they come,
  a backslash takes the next character literally, and the closing quote ends the word.
  When the input ends first the stream fails (\<open>None\<close>).
\<close>

fun read_quoted :: "string \<Rightarrow> string \<Rightarrow> (string \<times> string) option" where
  "read_quoted word [] = None"
| "read_quoted word (c # cs) =
     (if c = CHR 0x5C then
        (case cs of [] \<Rightarrow> None | d # ds \<Rightarrow> read_quoted (word @ [d]) ds)
      else if c = CHR 0x22 then Some (word, cs)
      else read_quoted (word @ [c]) cs)"

text \<open>
  One \<^verbatim>\<open>is >> std::quoted(word)\<close>: white space is skipped; at the end of the input the
  stream fails; a first character that is a quote starts a quoted word; any other starts
  a word that runs to the next white space. The result is the word and the rest of the
  input.
\<close>

definition extract_quoted :: "string \<Rightarrow> (string \<times> string) option" where
  "extract_quoted inp =
     (case dropWhile isspace inp of
        [] \<Rightarrow> None
      | c # cs \<Rightarrow>
          if c = CHR 0x22 then read_quoted [] cs
          else Some (takeWhile (\<lambda>x. \<not> isspace x) (c # cs),
                     dropWhile (\<lambda>x. \<not> isspace x) (c # cs)))"

lemma read_quoted_shorter:
  "read_quoted word inp = Some (w, r) \<Longrightarrow> length r < length inp"
proof (induction word inp rule: read_quoted.induct)
  case (1 word)
  then show ?case by simp
next
  case (2 word c cs)
  then show ?case
    by (cases cs) (auto split: if_splits)
qed

lemma extract_quoted_shorter:
  assumes "extract_quoted inp = Some (w, r)"
  shows "length r < length inp"
proof (cases "dropWhile isspace inp")
  case Nil
  with assms show ?thesis by (simp add: extract_quoted_def)
next
  case (Cons c cs)
  have le: "length (dropWhile isspace inp) \<le> length inp"
    by (rule length_dropWhile_le)
  show ?thesis
  proof (cases "c = CHR 0x22")
    case True
    with assms Cons have "read_quoted [] cs = Some (w, r)"
      by (simp add: extract_quoted_def)
    then have "length r < length cs" by (rule read_quoted_shorter)
    with le Cons show ?thesis by simp
  next
    case False
    have "\<not> isspace c"
      using hd_dropWhile [of isspace inp] Cons by simp
    with assms Cons False have "r = dropWhile (\<lambda>x. \<not> isspace x) cs"
      by (simp add: extract_quoted_def)
    then have "length r \<le> length cs" by (simp add: length_dropWhile_le)
    with le Cons show ?thesis by simp
  qed
qed

text \<open>The loop \<^verbatim>\<open>while (is >> std::quoted(word)) argList.push_back(word)\<close>.\<close>

function split_loop :: "string \<Rightarrow> StrVec \<Rightarrow> StrVec" where
  "split_loop inp argList =
     (case extract_quoted inp of
        None \<Rightarrow> argList
      | Some (word, rest) \<Rightarrow> split_loop rest (argList @ [word]))"
  by pat_completeness auto
termination
  by (relation "measure (\<lambda>(inp, argList). length inp)")
     (auto dest: extract_quoted_shorter)

declare split_loop.simps [simp del]

definition split :: "string \<Rightarrow> StrVec" where
  "split line = split_loop line []"

subsection \<open>\<^verbatim>\<open>breakDownURL\<close>\<close>

definition breakDownURL :: "string \<Rightarrow> fault + (string \<times> string \<times> string)" where
  "breakDownURL url =
     (let hostStart = add_sz (find_str ''//'' 0 url) 2;
          pathStart = find_chr CHR ''/'' hostStart url;
          portPos = find_chr CHR '':'' hostStart url;
          hostEnd = (if portPos = npos then pathStart else portPos)
      in case substr url hostStart (sub_sz hostEnd hostStart) of
           Inl e \<Rightarrow> Inl e
         | Inr hostName \<Rightarrow>
             (case substr url pathStart npos of
                Inl e \<Rightarrow> Inl e
              | Inr path \<Rightarrow>
                  if portPos \<noteq> npos then
                    (case substr url (add_sz portPos 1)
                            (sub_sz (sub_sz pathStart portPos) 1) of
                       Inl e \<Rightarrow> Inl e
                     | Inr port \<Rightarrow> Inr (hostName, port, path))
                  else Inr (hostName, ''80'', path)))"

subsection \<open>The outside world, the events and the state\<close>

text \<open>
  Modelled from the spec: the class \<^verbatim>\<open>ChildProcess\<close> of \<^verbatim>\<open>ChildProcess.h\<close>, which is not
  among the sources. The spec gives it two operations: \<^verbatim>\<open>forkNexec\<close> starts the command and
  never blocks, and \<^verbatim>\<open>wait\<close> blocks until the child has ended and returns its exit code.
  A handle holds the identifier of its child; the children of a run are numbered in the
  order in which they are forked.
\<close>

datatype ChildProcess = ChildProcess (childPid: nat)

type_synonym ProcessList = "ChildProcess list"

text \<open>
  What the outside world answers: the exit code of each child, the lines \<^verbatim>\<open>std::getline\<close>
  reads from a local file (\<open>None\<close> when the file cannot be opened), and the lines of the
  response of a host to a request (\<open>None\<close> when the connection fails).
\<close>

record world =
  exit_code :: "nat \<Rightarrow> int"
  file_lines :: "string \<Rightarrow> string list option"
  http_lines :: "string \<Rightarrow> string \<Rightarrow> string \<Rightarrow> string list option"

text \<open>
  The events of a run, in the order in which the program performs them: the prompt written
  before each \<^verbatim>\<open>std::getline\<close>, the line \<^verbatim>\<open>Running: ...\<close>, the fork of a child, the wait for
  a child, the line \<^verbatim>\<open>Exit code: ...\<close>, the opening of a local file and the request sent
  to a host.
\<close>

datatype event =
    Prompt string
  | Running StrVec
  | ForkNexec nat StrVec
  | Wait nat
  | ExitCode int
  | OpenFile string
  | HttpGet string string string

text \<open>
  The state of a run: the events so far and the number the next child will get.
\<close>

datatype state = State (trace: "event list") (next_pid: nat)

text \<open>How a call ends: it returns, it stops at a fault, or the model runs out of fuel.\<close>

datatype 'a outcome = Returns 'a | Faults fault state | OutOfFuel

definition emit :: "event \<Rightarrow> state \<Rightarrow> state" where
  "emit e st = State (trace st @ [e]) (next_pid st)"

text \<open>\<^verbatim>\<open>v[i]\<close> on a vector.\<close>

definition vec_at :: "'a list \<Rightarrow> nat \<Rightarrow> fault + 'a" where
  "vec_at v i = (if i < length v then Inr (v ! i) else Inl IndexOutOfRange)"

subsection \<open>\<^verbatim>\<open>runCommand\<close> and the wait for a child\<close>

definition runCommand :: "StrVec \<Rightarrow> state \<Rightarrow> ChildProcess \<times> state" where
  "runCommand argList st =
     (let st1 = emit (Running argList) st;
          pid = next_pid st1
      in (ChildProcess pid, State (trace (emit (ForkNexec pid argList) st1)) (Suc pid)))"

text \<open>\<^verbatim>\<open>std::cout << "Exit code: " << cp.wait() << std::endl\<close>.\<close>

definition report_exit :: "world \<Rightarrow> ChildProcess \<Rightarrow> state \<Rightarrow> state" where
  "report_exit w cp st =
     emit (ExitCode (exit_code w (childPid cp))) (emit (Wait (childPid cp)) st)"

subsection \<open>\<^verbatim>\<open>setupHTTPStream\<close>\<close>

text \<open>
  The headers are read up to and including the first line that is empty or a lone
  carriage return; the lines after it are left in the stream. A failed connection leaves a
  stream from which nothing can be read.
\<close>

definition setupHTTPStream :: "world \<Rightarrow> string \<Rightarrow> state \<Rightarrow> fault + (string list \<times> state)" where
  "setupHTTPStream w url st =
     (case breakDownURL url of
        Inl e \<Rightarrow> Inl e
      | Inr (hostname, port, path) \<Rightarrow>
          Inr (case http_lines w hostname port path of
                 None \<Rightarrow> []
               | Some response \<Rightarrow>
                   drop 1 (dropWhile (\<lambda>hdr. hdr \<noteq> [] \<and> hdr \<noteq> [CHR 0x0D]) response),
               emit (HttpGet hostname port path) st))"

text \<open>\<^verbatim>\<open>std::ifstream script(fileOrUrl)\<close>: a file that cannot be opened gives no line.\<close>

definition ifstream :: "world \<Rightarrow> string \<Rightarrow> string list" where
  "ifstream w name = (case file_lines w name of None \<Rightarrow> [] | Some ls \<Rightarrow> ls)"

subsection \<open>\<^verbatim>\<open>process\<close> and \<^verbatim>\<open>processScript\<close>\<close>

text \<open>
  \<open>process_loop\<close> is the \<^verbatim>\<open>while\<close> loop of \<^verbatim>\<open>process\<close> over the lines still to be read, with
  the local \<^verbatim>\<open>childList\<close>; \<open>process\<close> starts it with an empty list and then waits for the
  children of the list. A script can name itself, so the recursion through
  \<open>processScript\<close> need not end: the fuel bounds the depth of nested scripts, and only a
  composite verb uses it.
\<close>

function process_loop ::
    "nat \<Rightarrow> world \<Rightarrow> string list \<Rightarrow> string \<Rightarrow> bool \<Rightarrow> ProcessList \<Rightarrow> state
      \<Rightarrow> (ProcessList \<times> state) outcome"
  and process ::
    "nat \<Rightarrow> world \<Rightarrow> string list \<Rightarrow> string \<Rightarrow> bool \<Rightarrow> state \<Rightarrow> state outcome"
  and processScript ::
    "nat \<Rightarrow> world \<Rightarrow> string \<Rightarrow> bool \<Rightarrow> state \<Rightarrow> state outcome"
where
  "process_loop fuel w [] prompt parallel childList st =
     Returns (childList, emit (Prompt prompt) st)"
| "process_loop fuel w (line # rest) prompt parallel childList st =
     (let st1 = emit (Prompt prompt) st in
      if line = ''exit'' then Returns (childList, st1)
      else if line = [] \<or> hd line = CHR ''#'' then
        process_loop fuel w rest prompt parallel childList st1
      else
        (let argList = split line in
         case vec_at argList 0 of
           Inl e \<Rightarrow> Faults e st1
         | Inr verb \<Rightarrow>
             if verb = ''SERIAL'' \<or> verb = ''PARALLEL'' then
               (case vec_at argList 1 of
                  Inl e \<Rightarrow> Faults e st1
                | Inr fileOrUrl \<Rightarrow>
                    (case fuel of
                       0 \<Rightarrow> OutOfFuel
                     | Suc fuel' \<Rightarrow>
                         (case processScript fuel' w fileOrUrl (verb = ''PARALLEL'') st1 of
                            Returns st2 \<Rightarrow>
                              process_loop fuel w rest prompt parallel childList st2
                          | Faults e s \<Rightarrow> Faults e s
                          | OutOfFuel \<Rightarrow> OutOfFuel)))
             else
               (case runCommand argList st1 of
                  (cp, st2) \<Rightarrow>
                    if \<not> parallel then
                      process_loop fuel w rest prompt parallel childList
                        (report_exit w cp st2)
                    else process_loop fuel w rest prompt parallel (childList @ [cp]) st2)))"
| "process fuel w lines prompt parallel st =
     (case process_loop fuel w lines prompt parallel [] st of
        Returns (childList, st1) \<Rightarrow> Returns (fold (report_exit w) childList st1)
      | Faults e s \<Rightarrow> Faults e s
      | OutOfFuel \<Rightarrow> OutOfFuel)"
| "processScript fuel w fileOrUrl parallel st =
     (if find_str ''http://'' 0 fileOrUrl = 0 then
        (case setupHTTPStream w fileOrUrl st of
           Inl e \<Rightarrow> Faults e st
         | Inr (client, st1) \<Rightarrow> process fuel w client [] parallel st1)
      else process fuel w (ifstream w fileOrUrl) [] parallel (emit (OpenFile fileOrUrl) st))"
  by pat_completeness auto
termination
  by (relation "inv_image (less_than <*lex*> less_than <*lex*> less_than)
        (\<lambda>x. case x of
           Inl (fuel, w, lines, rest) \<Rightarrow> (fuel, 0::nat, length lines)
         | Inr (Inl (fuel, rest)) \<Rightarrow> (fuel, 1, 0::nat)
         | Inr (Inr (fuel, rest)) \<Rightarrow> (fuel, 2, 0))")
     auto

declare process_loop.simps [simp del] process.simps [simp del] processScript.simps [simp del]

text \<open>\<^verbatim>\<open>main\<close> runs \<open>process\<close> on the standard input, with the default prompt, in serial mode.\<close>

definition main :: "nat \<Rightarrow> world \<Rightarrow> string list \<Rightarrow> state outcome" where
  "main fuel w cin = process fuel w cin ''> '' False (State [] 0)"

subsection \<open>Describing lines and runs\<close>

text \<open>
  A generic command line is a line that the loop neither ends at nor skips, whose word list
  has a first word, and whose first word is not a composite verb.
\<close>

definition generic_line :: "string \<Rightarrow> bool" where
  "generic_line line =
     (line \<noteq> ''exit'' \<and> line \<noteq> [] \<and> hd line \<noteq> CHR ''#'' \<and> split line \<noteq> []
      \<and> hd (split line) \<noteq> ''SERIAL'' \<and> hd (split line) \<noteq> ''PARALLEL'')"

text \<open>
  The events expected of one generic command whose child gets the number \<open>pid\<close>: in serial
  mode the prompt and the read, the echo, the fork, the wait and the report; in parallel
  mode the same without the wait and the report, which come in the drain.
\<close>

definition serial_events :: "world \<Rightarrow> string \<Rightarrow> string \<Rightarrow> nat \<Rightarrow> event list" where
  "serial_events w prompt line pid =
     [Prompt prompt, Running (split line), ForkNexec pid (split line), Wait pid,
      ExitCode (exit_code w pid)]"

definition spawn_events :: "string \<Rightarrow> string \<Rightarrow> nat \<Rightarrow> event list" where
  "spawn_events prompt line pid =
     [Prompt prompt, Running (split line), ForkNexec pid (split line)]"

definition drain_events :: "world \<Rightarrow> nat \<Rightarrow> event list" where
  "drain_events w pid = [Wait pid, ExitCode (exit_code w pid)]"

text \<open>The children forked and the children waited for in a list of events, in order.\<close>

fun fork_of :: "event \<Rightarrow> nat list" where
  "fork_of (ForkNexec pid argList) = [pid]"
| "fork_of e = []"

fun wait_of :: "event \<Rightarrow> nat list" where
  "wait_of (Wait pid) = [pid]"
| "wait_of e = []"

definition forks :: "event list \<Rightarrow> nat list" where
  "forks tr = concat (map fork_of tr)"

definition waits :: "event list \<Rightarrow> nat list" where
  "waits tr = concat (map wait_of tr)"

text \<open>
  \<open>run_ok st pending st'\<close>: the run from \<open>st\<close> to \<open>st'\<close> only added events, it forked the
  children numbered from \<open>next_pid st\<close> up to \<open>next_pid st'\<close> in this order, and each of them
  has either been waited for once or is still in \<open>pending\<close>, never both and never twice.
\<close>

definition run_ok :: "state \<Rightarrow> nat multiset \<Rightarrow> state \<Rightarrow> bool" where
  "run_ok st pending st' =
     (let ev = drop (length (trace st)) (trace st') in
      take (length (trace st)) (trace st') = trace st
      \<and> next_pid st \<le> next_pid st'
      \<and> forks ev = [next_pid st..<next_pid st']
      \<and> mset (waits ev) + pending = mset [next_pid st..<next_pid st'])"

text \<open>
  The body of a response, in the words of the spec: every line up to and including the
  first blank line (an empty line, or a lone carriage return) is discarded, and the lines
  after it are the script. A failed connection gives no line.
\<close>

fun body_after_headers :: "string list \<Rightarrow> string list" where
  "body_after_headers [] = []"
| "body_after_headers (hdr # rest) =
     (if hdr = [] \<or> hdr = [CHR 0x0D] then rest else body_after_headers rest)"

definition http_body :: "world \<Rightarrow> string \<Rightarrow> string \<Rightarrow> string \<Rightarrow> string list" where
  "http_body w hostname port path =
     (case http_lines w hostname port path of
        None \<Rightarrow> []
      | Some response \<Rightarrow> body_after_headers response)"

text \<open>
  The events expected of a nested script of generic command lines, read with the empty
  prompt, whose first child gets the number \<open>n\<close>: in parallel mode the echoes and forks in
  line order, the last prompt, then the waits and reports in fork order; in serial mode
  each command with its wait and report, then the last prompt.
\<close>

definition nested_events :: "world \<Rightarrow> bool \<Rightarrow> string list \<Rightarrow> nat \<Rightarrow> event list" where
  "nested_events w par lines n =
     (if par then
        concat (map2 (spawn_events []) lines [n..<n + length lines])
        @ [Prompt []]
        @ concat (map (drain_events w) [n..<n + length lines])
      else
        concat (map2 (serial_events w []) lines [n..<n + length lines])
        @ [Prompt []])"

text \<open>
  A small world for the examples: the child numbered 1 exits with code 2 and every other
  child with 0; there is one script, \<^verbatim>\<open>child.sh\<close>, with two commands; no host answers.
\<close>

definition demo_world :: world where
  "demo_world =
     \<lparr>exit_code = (\<lambda>pid. if pid = 1 then 2 else 0),
      file_lines = (\<lambda>name. if name = ''child.sh'' then Some [''echo a'', ''echo b''] else None),
      http_lines = (\<lambda>host port path. None)\<rparr>"

definition initial_state :: state where
  "initial_state = State [] 0"

text \<open>
  A second world, with no file and one host: \<^verbatim>\<open>localhost:8080\<close> answers the request for
  \<^verbatim>\<open>/s.sh\<close> with two header lines, the blank line and a script of two commands.
\<close>

definition web_world :: world where
  "web_world =
     \<lparr>exit_code = (\<lambda>pid. if pid = 1 then 2 else 0),
      file_lines = (\<lambda>name. None),
      http_lines = (\<lambda>host port path.
        if host = ''localhost'' \<and> port = ''8080'' \<and> path = ''/s.sh''
        then Some [''HTTP/1.1 200 OK'', ''Connection: close'', [CHR 0x0D], ''echo a'', ''echo b'']
        else None)\<rparr>"

section \<open>Properties\<close>

subsection \<open>String search\<close>

lemma find_at_bound:
  "pat \<noteq> [] \<Longrightarrow>
   find_at pat i s = npos \<or> (i \<le> find_at pat i s \<and> find_at pat i s < i + length s)"
proof (induction s arbitrary: i)
  case Nil
  then show ?case by simp
next
  case (Cons c cs)
  from Cons.IH [OF Cons.prems, of "Suc i"] show ?case by auto
qed

lemma find_str_bound:
  assumes "pat \<noteq> []"
  shows "find_str pat pos s = npos
         \<or> (pos \<le> find_str pat pos s \<and> find_str pat pos s < length s)"
proof (cases "length s < pos")
  case True
  then show ?thesis by (simp add: find_str_def)
next
  case False
  with find_at_bound [OF assms, of pos "drop pos s"] show ?thesis
    by (auto simp: find_str_def)
qed

lemma find_at_zero_prefix:
  assumes "pat \<noteq> []" "find_at pat 0 s = 0"
  shows "take (length pat) s = pat"
proof (cases s)
  case Nil
  with assms show ?thesis by (simp add: npos_def)
next
  case (Cons c cs)
  show ?thesis
  proof (rule ccontr)
    assume "take (length pat) s \<noteq> pat"
    with Cons assms have "find_at pat (Suc 0) cs = 0" by simp
    with find_at_bound [OF assms(1), of "Suc 0" cs] show False
      by (auto simp: npos_def)
  qed
qed

lemma http_prefix_has_separator:
  assumes "find_str ''http://'' 0 url = 0"
  shows "find_str ''//'' 0 url = 5"
proof -
  from assms have "find_at ''http://'' 0 url = 0" by (simp add: find_str_def)
  then have "take (length ''http://'') url = ''http://''"
    by (rule find_at_zero_prefix [rotated]) simp
  then obtain r where "url = ''http://'' @ r"
    by (metis append_take_drop_id)
  then show ?thesis by (simp add: find_str_def)
qed

text \<open>
  The search is what its name says: on a string shorter than \<^const>\<open>npos\<close> it gives \<^const>\<open>npos\<close>
  exactly when the pattern occurs nowhere.
\<close>

lemma find_at_npos_iff:
  assumes "pat \<noteq> []" "i + length s < npos"
  shows "find_at pat i s = npos \<longleftrightarrow> (\<nexists>ys zs. s = ys @ pat @ zs)"
  using assms
proof (induction s arbitrary: i)
  case Nil
  then show ?case by simp
next
  case (Cons c cs)
  show ?case
  proof (cases "take (length pat) (c # cs) = pat")
    case True
    then have "c # cs = [] @ pat @ drop (length pat) (c # cs)"
      by (metis append_Nil append_take_drop_id)
    then have "\<exists>ys zs. c # cs = ys @ pat @ zs" by blast
    with True Cons.prems show ?thesis by simp
  next
    case False
    have "(\<exists>ys zs. c # cs = ys @ pat @ zs) \<longleftrightarrow> (\<exists>ys zs. cs = ys @ pat @ zs)"
    proof
      assume "\<exists>ys zs. c # cs = ys @ pat @ zs"
      then obtain ys zs where e: "c # cs = ys @ pat @ zs" by blast
      show "\<exists>ys zs. cs = ys @ pat @ zs"
      proof (cases ys)
        case Nil
        with e have "take (length pat) (c # cs) = pat" by simp
        with False show ?thesis by simp
      next
        case (Cons y ys')
        with e have "cs = ys' @ pat @ zs" by simp
        then show ?thesis by blast
      qed
    next
      assume "\<exists>ys zs. cs = ys @ pat @ zs"
      then obtain ys zs where "cs = ys @ pat @ zs" by blast
      then have "c # cs = (c # ys) @ pat @ zs" by simp
      then show "\<exists>ys zs. c # cs = ys @ pat @ zs" by blast
    qed
    moreover have "find_at pat (Suc i) cs = npos \<longleftrightarrow> (\<nexists>ys zs. cs = ys @ pat @ zs)"
      using Cons.IH [of "Suc i"] Cons.prems by simp
    ultimately show ?thesis using False by simp
  qed
qed

lemma find_str_npos_iff:
  assumes "pat \<noteq> []" "length s < npos"
  shows "find_str pat 0 s = npos \<longleftrightarrow> (\<nexists>ys zs. s = ys @ pat @ zs)"
  using find_at_npos_iff [OF assms(1), of 0 s] assms(2) by (simp add: find_str_def)

subsection \<open>Words of the example lines\<close>

lemma split_examples:
  "split ''ls -l'' = [''ls'', ''-l'']"
  "split ''echo hi'' = [''echo'', ''hi'']"
  "split ''echo a'' = [''echo'', ''a'']"
  "split ''echo b'' = [''echo'', ''b'']"
  "split ''pwd'' = [''pwd'']"
  "split ''SERIAL child.sh'' = [''SERIAL'', ''child.sh'']"
  "split ''SERIAL'' = [''SERIAL'']"
  "split ''PARALLEL'' = [''PARALLEL'']"
  "split '' '' = []"
  by code_simp+

text \<open>
  A quoted run of characters is one word, without its quotes; a quote that is never closed
  makes the extraction fail, and the word is dropped.
\<close>

lemma split_quoted_examples:
  "split (''foo '' @ [CHR 0x22] @ ''bar baz'' @ [CHR 0x22] @ '' qux'')
     = [''foo'', ''bar baz'', ''qux'']"
  "split (''foo '' @ [CHR 0x22] @ ''bar baz'') = [''foo'']"
  by code_simp+

lemma generic_examples:
  "generic_line ''ls -l''" "generic_line ''echo hi''" "generic_line ''echo a''"
  "generic_line ''echo b''" "generic_line ''pwd''"
  by (simp_all add: generic_line_def split_examples)

subsection \<open>One generic command, and scripts of generic commands\<close>

lemma upt_shift: "[n..<Suc (n + k)] = n # [Suc n..<Suc (n + k)]"
  by (simp del: upt_Suc add: upt_conv_Cons)

lemma generic_step_serial:
  assumes "generic_line line"
  shows "process_loop fuel w (line # rest) prompt False childList st =
         process_loop fuel w rest prompt False childList
           (State (trace st @ serial_events w prompt line (next_pid st))
                  (Suc (next_pid st)))"
proof -
  obtain a args where sp: "split line = a # args"
    using assms by (cases "split line") (auto simp: generic_line_def)
  with assms have "a \<noteq> ''SERIAL''" "a \<noteq> ''PARALLEL''"
    by (auto simp: generic_line_def)
  with assms sp show ?thesis
    by (simp add: process_loop.simps generic_line_def vec_at_def runCommand_def
        report_exit_def emit_def serial_events_def Let_def)
qed

lemma generic_step_parallel:
  assumes "generic_line line"
  shows "process_loop fuel w (line # rest) prompt True childList st =
         process_loop fuel w rest prompt True (childList @ [ChildProcess (next_pid st)])
           (State (trace st @ spawn_events prompt line (next_pid st))
                  (Suc (next_pid st)))"
proof -
  obtain a args where sp: "split line = a # args"
    using assms by (cases "split line") (auto simp: generic_line_def)
  with assms have "a \<noteq> ''SERIAL''" "a \<noteq> ''PARALLEL''"
    by (auto simp: generic_line_def)
  with assms sp show ?thesis
    by (simp add: process_loop.simps generic_line_def vec_at_def runCommand_def emit_def
        spawn_events_def Let_def)
qed

lemma process_loop_serial:
  "\<forall>line\<in>set lines. generic_line line \<Longrightarrow>
   process_loop fuel w lines prompt False childList st =
     Returns (childList,
              State (trace st
                  @ concat (map2 (serial_events w prompt) lines
                       [next_pid st..<next_pid st + length lines])
                  @ [Prompt prompt])
                (next_pid st + length lines))"
proof (induction lines arbitrary: st)
  case Nil
  then show ?case by (simp add: process_loop.simps emit_def)
next
  case (Cons line lines)
  from Cons.prems have gl: "generic_line line" and rest: "\<forall>l\<in>set lines. generic_line l"
    by simp_all
  show ?case
    unfolding generic_step_serial [OF gl] Cons.IH [OF rest]
    by (simp del: upt_Suc add: upt_shift)
qed

lemma process_loop_parallel:
  "\<forall>line\<in>set lines. generic_line line \<Longrightarrow>
   process_loop fuel w lines prompt True childList st =
     Returns (childList @ map ChildProcess [next_pid st..<next_pid st + length lines],
              State (trace st
                  @ concat (map2 (spawn_events prompt) lines
                       [next_pid st..<next_pid st + length lines])
                  @ [Prompt prompt])
                (next_pid st + length lines))"
proof (induction lines arbitrary: st childList)
  case Nil
  then show ?case by (simp add: process_loop.simps emit_def)
next
  case (Cons line lines)
  from Cons.prems have gl: "generic_line line" and rest: "\<forall>l\<in>set lines. generic_line l"
    by simp_all
  show ?case
    unfolding generic_step_parallel [OF gl] Cons.IH [OF rest]
    by (simp del: upt_Suc add: upt_shift)
qed

lemma fold_report_exit:
  "fold (report_exit w) childList st =
     State (trace st @ concat (map (\<lambda>cp. drain_events w (childPid cp)) childList))
           (next_pid st)"
  by (induction childList arbitrary: st)
     (simp_all add: report_exit_def emit_def drain_events_def)

lemma process_parallel_generic:
  assumes "\<forall>line\<in>set lines. generic_line line"
  shows "process fuel w lines prompt True st =
     Returns (State (trace st
                  @ concat (map2 (spawn_events prompt) lines
                       [next_pid st..<next_pid st + length lines])
                  @ [Prompt prompt]
                  @ concat (map (drain_events w) [next_pid st..<next_pid st + length lines]))
                (next_pid st + length lines))"
  by (simp add: process.simps process_loop_parallel [OF assms] fold_report_exit comp_def
        map_concat)

subsection \<open>Every child is waited for once\<close>

text \<open>
  The runs that \<^const>\<open>run_ok\<close> describes compose, and each step of the program is such a run.
  So when a call of \<open>process\<close> or \<open>processScript\<close> returns, every child forked during the
  call, nested scripts included, has been waited for exactly once.
\<close>

lemma run_okI:
  assumes "trace st' = trace st @ ev" "next_pid st \<le> next_pid st'"
    "forks ev = [next_pid st..<next_pid st']"
    "mset (waits ev) + pending = mset [next_pid st..<next_pid st']"
  shows "run_ok st pending st'"
  using assms by (simp add: run_ok_def)

lemma run_okE:
  assumes "run_ok st pending st'"
  obtains ev where "trace st' = trace st @ ev" "next_pid st \<le> next_pid st'"
    "forks ev = [next_pid st..<next_pid st']"
    "mset (waits ev) + pending = mset [next_pid st..<next_pid st']"
proof -
  let ?ev = "drop (length (trace st)) (trace st')"
  from assms have "trace st' = trace st @ ?ev"
    by (metis append_take_drop_id run_ok_def)
  with assms that [of ?ev] show thesis by (simp add: run_ok_def Let_def)
qed

lemma run_ok_refl: "run_ok st {#} st"
  by (rule run_okI [where ev = "[]"]) (simp_all add: forks_def waits_def)

lemma run_ok_trans:
  assumes "run_ok s M1 s1" "run_ok s1 M2 s2"
  shows "run_ok s (M1 + M2) s2"
proof -
  from assms(1) obtain ev1 where 1: "trace s1 = trace s @ ev1" "next_pid s \<le> next_pid s1"
    "forks ev1 = [next_pid s..<next_pid s1]"
    "mset (waits ev1) + M1 = mset [next_pid s..<next_pid s1]" by (rule run_okE)
  from assms(2) obtain ev2 where 2: "trace s2 = trace s1 @ ev2" "next_pid s1 \<le> next_pid s2"
    "forks ev2 = [next_pid s1..<next_pid s2]"
    "mset (waits ev2) + M2 = mset [next_pid s1..<next_pid s2]" by (rule run_okE)
  have upt: "[next_pid s..<next_pid s2] = [next_pid s..<next_pid s1] @ [next_pid s1..<next_pid s2]"
    using 1(2) 2(2) by (metis le_Suc_ex upt_add_eq_append)
  show ?thesis
  proof (rule run_okI [where ev = "ev1 @ ev2"])
    show "trace s2 = trace s @ ev1 @ ev2" using 1(1) 2(1) by simp
    show "next_pid s \<le> next_pid s2" using 1(2) 2(2) by simp
    show "forks (ev1 @ ev2) = [next_pid s..<next_pid s2]"
      using 1(3) 2(3) upt by (simp add: forks_def)
    have "mset (waits (ev1 @ ev2)) + (M1 + M2) = (mset (waits ev1) + M1) + (mset (waits ev2) + M2)"
      by (simp add: waits_def)
    also have "\<dots> = mset [next_pid s..<next_pid s2]"
      using 1(4) 2(4) upt by simp
    finally show "mset (waits (ev1 @ ev2)) + (M1 + M2) = mset [next_pid s..<next_pid s2]" .
  qed
qed

lemma run_ok_emit:
  assumes "fork_of e = []" "wait_of e = []"
  shows "run_ok st {#} (emit e st)"
  by (rule run_okI [where ev = "[e]"]) (simp_all add: emit_def forks_def waits_def assms)

lemma run_ok_runCommand:
  assumes "runCommand argList st = (cp, st')"
  shows "run_ok st {#childPid cp#} st'"
  using assms
  by (intro run_okI [where ev = "[Running argList, ForkNexec (next_pid st) argList]"])
     (auto simp: runCommand_def emit_def Let_def forks_def waits_def)

lemma run_ok_report_exit:
  assumes "run_ok st (add_mset (childPid cp) M) st1"
  shows "run_ok st M (report_exit w cp st1)"
proof -
  from assms obtain ev where 1: "trace st1 = trace st @ ev" "next_pid st \<le> next_pid st1"
    "forks ev = [next_pid st..<next_pid st1]"
    "mset (waits ev) + add_mset (childPid cp) M = mset [next_pid st..<next_pid st1]"
    by (rule run_okE)
  show ?thesis
    by (rule run_okI [where ev = "ev @ [Wait (childPid cp), ExitCode (exit_code w (childPid cp))]"])
       (use 1 in \<open>simp_all add: report_exit_def emit_def forks_def waits_def\<close>)
qed

lemma run_ok_drain:
  "run_ok st (mset (map childPid cl) + M) st1 \<Longrightarrow> run_ok st M (fold (report_exit w) cl st1)"
proof (induction cl arbitrary: st1)
  case Nil
  then show ?case by simp
next
  case (Cons cp cl)
  from Cons.prems have "run_ok st (add_mset (childPid cp) (mset (map childPid cl) + M)) st1"
    by simp
  then have "run_ok st (mset (map childPid cl) + M) (report_exit w cp st1)"
    by (rule run_ok_report_exit)
  then show ?case using Cons.IH by simp
qed

lemma loop_inv:
  assumes nested: "\<And>f ref m s s'. fuel = Suc f \<Longrightarrow> processScript f w ref m s = Returns s'
                     \<Longrightarrow> run_ok s {#} s'"
  shows "process_loop fuel w lines prompt par cl st = Returns (cl', st')
         \<Longrightarrow> \<exists>new. cl' = cl @ new \<and> run_ok st (mset (map childPid new)) st'
                   \<and> (\<not> par \<longrightarrow> new = [])"
proof (induction lines arbitrary: cl st)
  case Nil
  then have "cl' = cl" "st' = emit (Prompt prompt) st"
    by (simp_all add: process_loop.simps)
  then show ?case using run_ok_emit [of "Prompt prompt" st] by simp
next
  case (Cons line rest)
  let ?st1 = "emit (Prompt prompt) st"
  have p: "run_ok st {#} ?st1" by (rule run_ok_emit) simp_all
  show ?case
  proof (cases "line = ''exit''")
    case True
    with Cons.prems have "cl' = cl" "st' = ?st1"
      by (simp_all add: process_loop.simps Let_def)
    with p show ?thesis by simp
  next
    case notexit: False
    show ?thesis
    proof (cases "line = [] \<or> hd line = CHR ''#''")
      case True
      with notexit Cons.prems have "process_loop fuel w rest prompt par cl ?st1 = Returns (cl', st')"
        by (simp add: process_loop.simps Let_def)
      from Cons.IH [OF this] obtain new where
        "cl' = cl @ new" "run_ok ?st1 (mset (map childPid new)) st'" "\<not> par \<longrightarrow> new = []"
        by blast
      with run_ok_trans [OF p this(2)] show ?thesis by auto
    next
      case notskip: False
      from notexit notskip Cons.prems obtain verb where
        verb: "vec_at (split line) 0 = Inr verb"
        by (cases "vec_at (split line) 0") (auto simp: process_loop.simps Let_def)
      show ?thesis
      proof (cases "verb = ''SERIAL'' \<or> verb = ''PARALLEL''")
        case True
        from notexit notskip verb True Cons.prems obtain ref where
          ref: "vec_at (split line) 1 = Inr ref"
          by (cases "vec_at (split line) 1") (auto simp: process_loop.simps Let_def)
        from notexit notskip verb True ref Cons.prems obtain f where
          f: "fuel = Suc f"
          by (cases fuel) (auto simp: process_loop.simps Let_def)
        from notexit notskip verb True ref f Cons.prems obtain st2 where
          st2: "processScript f w ref (verb = ''PARALLEL'') ?st1 = Returns st2"
          by (cases "processScript f w ref (verb = ''PARALLEL'') ?st1")
             (auto simp: process_loop.simps Let_def)
        with notexit notskip verb True ref f Cons.prems
        have "process_loop fuel w rest prompt par cl st2 = Returns (cl', st')"
          by (auto simp: process_loop.simps Let_def)
        from Cons.IH [OF this] obtain new where
          new: "cl' = cl @ new" "run_ok st2 (mset (map childPid new)) st'" "\<not> par \<longrightarrow> new = []"
          by blast
        from run_ok_trans [OF p nested [OF f st2]] have "run_ok st {#} st2" by simp
        from run_ok_trans [OF this new(2)] new show ?thesis by auto
      next
        case generic: False
        obtain cp st2 where rc: "runCommand (split line) ?st1 = (cp, st2)"
          by (cases "runCommand (split line) ?st1")
        from run_ok_trans [OF p run_ok_runCommand [OF rc]]
        have r2: "run_ok st {#childPid cp#} st2" by simp
        show ?thesis
        proof (cases par)
          case True
          with notexit notskip verb generic rc Cons.prems
          have "process_loop fuel w rest prompt par (cl @ [cp]) st2 = Returns (cl', st')"
            by (simp add: process_loop.simps Let_def)
          from Cons.IH [OF this] obtain new where
            new: "cl' = (cl @ [cp]) @ new" "run_ok st2 (mset (map childPid new)) st'"
            by blast
          from run_ok_trans [OF r2 new(2)] new(1) True show ?thesis
            by (intro exI [where x = "cp # new"]) simp
        next
          case False
          with notexit notskip verb generic rc Cons.prems
          have "process_loop fuel w rest prompt par cl (report_exit w cp st2) = Returns (cl', st')"
            by (simp add: process_loop.simps Let_def)
          from Cons.IH [OF this] obtain new where
            new: "cl' = cl @ new" "run_ok (report_exit w cp st2) (mset (map childPid new)) st'"
              "\<not> par \<longrightarrow> new = []"
            by blast
          from r2 have "run_ok st {#} (report_exit w cp st2)"
            by (intro run_ok_report_exit) simp
          from run_ok_trans [OF this new(2)] new show ?thesis by auto
        qed
      qed
    qed
  qed
qed

lemma process_inv:
  assumes nested: "\<And>f ref m s s'. fuel = Suc f \<Longrightarrow> processScript f w ref m s = Returns s'
                     \<Longrightarrow> run_ok s {#} s'"
    and "process fuel w lines prompt par st = Returns st'"
  shows "run_ok st {#} st'"
proof -
  from assms(2) obtain cl st1 where
    loop: "process_loop fuel w lines prompt par [] st = Returns (cl, st1)"
    and st': "st' = fold (report_exit w) cl st1"
    by (cases "process_loop fuel w lines prompt par [] st")
       (auto simp: process.simps)
  from loop_inv [OF nested loop] have "run_ok st (mset (map childPid cl)) st1"
    by auto
  then show ?thesis unfolding st' by (intro run_ok_drain) simp
qed

lemma processScript_inv_step:
  assumes nested: "\<And>f ref m s s'. fuel = Suc f \<Longrightarrow> processScript f w ref m s = Returns s'
                     \<Longrightarrow> run_ok s {#} s'"
    and ret: "processScript fuel w ref m st = Returns st'"
  shows "run_ok st {#} st'"
proof (cases "find_str ''http://'' 0 ref = 0")
  case True
  with ret obtain client st1 where s: "setupHTTPStream w ref st = Inr (client, st1)"
    and p: "process fuel w client [] m st1 = Returns st'"
    by (cases "setupHTTPStream w ref st") (auto simp: processScript.simps)
  from s obtain h po pa where "st1 = emit (HttpGet h po pa) st"
    by (auto simp: setupHTTPStream_def split: sum.splits prod.splits)
  then have "run_ok st {#} st1" by (simp add: run_ok_emit)
  from run_ok_trans [OF this process_inv [OF nested p]] show ?thesis by simp
next
  case False
  with ret have p: "process fuel w (ifstream w ref) [] m (emit (OpenFile ref) st) = Returns st'"
    by (simp add: processScript.simps)
  have "run_ok st {#} (emit (OpenFile ref) st)" by (simp add: run_ok_emit)
  from run_ok_trans [OF this process_inv [OF nested p]] show ?thesis by simp
qed

lemma processScript_inv:
  "processScript fuel w ref m st = Returns st' \<Longrightarrow> run_ok st {#} st'"
proof (induction fuel arbitrary: ref m st st')
  case 0
  show ?case by (rule processScript_inv_step [OF _ "0.prems"]) simp
next
  case (Suc fuel)
  show ?case by (rule processScript_inv_step [OF _ Suc.prems]) (auto intro: Suc.IH)
qed

lemma process_returns_run_ok:
  assumes "process fuel w lines prompt par st = Returns st'"
  shows "run_ok st {#} st'"
  by (rule process_inv [OF _ assms]) (auto intro: processScript_inv)

subsection \<open>The literal exit line\<close>

lemma loop_stops_at_exit:
  "process_loop fuel w (pre @ ''exit'' # rest) prompt parallel childList st =
   process_loop fuel w pre prompt parallel childList st"
proof (induction pre arbitrary: childList st)
  case Nil
  show ?case by (simp add: process_loop.simps Let_def)
next
  case (Cons line pre)
  have "process_loop fuel w (line # pre @ ''exit'' # rest) prompt parallel childList st =
        process_loop fuel w (line # pre) prompt parallel childList st"
    unfolding process_loop.simps Cons.IH ..
  then show ?case by simp
qed

subsection \<open>Nested scripts\<close>

lemma body_after_headers_eq:
  "drop (Suc 0) (dropWhile (\<lambda>hdr. hdr \<noteq> [] \<and> hdr \<noteq> [CHR 0x0D]) response)
     = body_after_headers response"
  by (induction response) auto

lemma setupHTTPStream_body:
  assumes "breakDownURL url = Inr (hostname, port, path)"
  shows "setupHTTPStream w url st
           = Inr (http_body w hostname port path, emit (HttpGet hostname port path) st)"
  using assms
  by (simp add: setupHTTPStream_def http_body_def body_after_headers_eq split: option.split)

lemma process_serial_generic:
  assumes "\<forall>line\<in>set lines. generic_line line"
  shows "process fuel w lines prompt False st =
     Returns (State (trace st
                  @ concat (map2 (serial_events w prompt) lines
                       [next_pid st..<next_pid st + length lines])
                  @ [Prompt prompt])
                (next_pid st + length lines))"
  by (simp add: process.simps process_loop_serial [OF assms])

lemma process_nested_generic:
  assumes "\<forall>line\<in>set lines. generic_line line"
  shows "process fuel w lines [] par st =
     Returns (State (trace st @ nested_events w par lines (next_pid st))
                    (next_pid st + length lines))"
  by (cases par)
     (simp_all add: nested_events_def process_serial_generic [OF assms]
        process_parallel_generic [OF assms])

lemma composite_step:
  assumes "line \<noteq> ''exit''" "line \<noteq> []" "hd line \<noteq> CHR ''#''"
    and "split line = verb # fileOrUrl # args"
    and "verb = ''SERIAL'' \<or> verb = ''PARALLEL''"
  shows "process_loop (Suc fuel) w (line # rest) prompt parallel childList st =
     (case processScript fuel w fileOrUrl (verb = ''PARALLEL'') (emit (Prompt prompt) st) of
        Returns st2 \<Rightarrow> process_loop (Suc fuel) w rest prompt parallel childList st2
      | Faults e s \<Rightarrow> Faults e s
      | OutOfFuel \<Rightarrow> OutOfFuel)"
  using assms by (simp add: process_loop.simps Let_def vec_at_def)

lemma split_composite_examples:
  "split ''PARALLEL child.sh'' = [''PARALLEL'', ''child.sh'']"
  "split ''PARALLEL http://localhost:8080/s.sh'' = [''PARALLEL'', ''http://localhost:8080/s.sh'']"
  by code_simp+

lemma demo_child_generic:
  "find_str ''http://'' 0 ''child.sh'' \<noteq> 0
   \<and> (\<forall>l\<in>set (ifstream demo_world ''child.sh''). generic_line l)"
  by (simp add: find_str_def npos_def ifstream_def demo_world_def generic_examples)

lemma web_script_generic:
  "find_str ''http://'' 0 ''http://localhost:8080/s.sh'' = 0
   \<and> breakDownURL ''http://localhost:8080/s.sh'' = Inr (''localhost'', ''8080'', ''/s.sh'')
   \<and> http_body web_world ''localhost'' ''8080'' ''/s.sh'' = [''echo a'', ''echo b'']
   \<and> (\<forall>l\<in>set (http_body web_world ''localhost'' ''8080'' ''/s.sh''). generic_line l)"
  by (simp add: breakDownURL_def find_chr_def find_str_def add_sz_def sub_sz_def substr_def
        npos_def http_body_def web_world_def generic_examples)

section \<open>The claims\<close>

text \<open>
  Claim C1. In serial mode a generic command line, wherever it stands, makes the loop
  write the prompt and read the line, echo the words, fork the child, wait for that child
  and report its exit code, all before the next line is read; the list of children is left
  as it was. So a script of \<open>N\<close> generic command lines returns, for any fuel, with exactly
  these five events for each line, in line order, the children numbered in line order,
  and then the prompt of the read that finds the end of the input.
\<close>

theorem serial_commands_wait_in_line_order:
  "(generic_line line \<longrightarrow>
      process_loop fuel w (line # rest) prompt False childList st =
      process_loop fuel w rest prompt False childList
        (State (trace st @ serial_events w prompt line (next_pid st)) (Suc (next_pid st))))
   \<and> ((\<forall>l\<in>set lines. generic_line l) \<longrightarrow>
      process fuel w lines prompt False st =
      Returns (State (trace st
                  @ concat (map2 (serial_events w prompt) lines
                       [next_pid st..<next_pid st + length lines])
                  @ [Prompt prompt])
                (next_pid st + length lines)))"
  by (simp add: generic_step_serial process.simps process_loop_serial)

theorem serial_commands_wait_in_line_order_witness:
  "generic_line ''ls -l'' \<and> generic_line ''echo hi''
   \<and> process 0 demo_world [''ls -l'', ''echo hi''] ''> '' False initial_state =
     Returns (State
       [Prompt ''> '', Running [''ls'', ''-l''], ForkNexec 0 [''ls'', ''-l''], Wait 0,
        ExitCode 0,
        Prompt ''> '', Running [''echo'', ''hi''], ForkNexec 1 [''echo'', ''hi''], Wait 1,
        ExitCode 2,
        Prompt ''> ''] 2)"
proof -
  have g: "generic_line ''ls -l''" "generic_line ''echo hi''"
    by (rule generic_examples)+
  then have "\<forall>l\<in>set [''ls -l'', ''echo hi'']. generic_line l" by simp
  with serial_commands_wait_in_line_order
    [where lines = "[''ls -l'', ''echo hi'']" and fuel = 0 and w = demo_world
       and prompt = "''> ''" and st = initial_state]
  have "process 0 demo_world [''ls -l'', ''echo hi''] ''> '' False initial_state =
      Returns (State (trace initial_state
                  @ concat (map2 (serial_events demo_world ''> '') [''ls -l'', ''echo hi'']
                       [next_pid initial_state..<next_pid initial_state
                          + length [''ls -l'', ''echo hi'']])
                  @ [Prompt ''> ''])
                (next_pid initial_state + length [''ls -l'', ''echo hi'']))"
    by blast
  with g show ?thesis
    by (simp add: serial_events_def split_examples demo_world_def initial_state_def)
qed

text \<open>
  Claim C2. In parallel mode a generic command line, wherever it stands, makes the loop
  write the prompt and read the line, echo the words and fork the child, and append the
  child's handle at the end of the list of children; nothing is waited for. When the loop
  has returned with a list of children, \<open>process\<close> waits for each child of the list and
  reports its exit code, once, in the order of the list. So a script of \<open>N\<close> generic
  command lines returns, for any fuel, with the echoes and forks in line order, then the
  last prompt, then the \<open>N\<close> waits and reports in the order of the forks. And whatever the
  script, when \<open>process\<close> returns every child forked during the call has been waited for
  exactly once.
\<close>

theorem parallel_commands_drain_in_spawn_order:
  "(generic_line line \<longrightarrow>
      process_loop fuel w (line # rest) prompt True childList st =
      process_loop fuel w rest prompt True (childList @ [ChildProcess (next_pid st)])
        (State (trace st @ spawn_events prompt line (next_pid st)) (Suc (next_pid st))))
   \<and> (process_loop fuel w script prompt True [] st = Returns (children, st1) \<longrightarrow>
      process fuel w script prompt True st =
      Returns (State (trace st1 @ concat (map (\<lambda>cp. drain_events w (childPid cp)) children))
                     (next_pid st1)))
   \<and> ((\<forall>l\<in>set lines. generic_line l) \<longrightarrow>
      process fuel w lines prompt True st =
      Returns (State (trace st
                  @ concat (map2 (spawn_events prompt) lines
                       [next_pid st..<next_pid st + length lines])
                  @ [Prompt prompt]
                  @ concat (map (drain_events w) [next_pid st..<next_pid st + length lines]))
                (next_pid st + length lines)))
   \<and> (process fuel w script prompt True st = Returns st2 \<longrightarrow> run_ok st {#} st2)"
proof (intro conjI impI)
  assume "generic_line line"
  then show "process_loop fuel w (line # rest) prompt True childList st =
      process_loop fuel w rest prompt True (childList @ [ChildProcess (next_pid st)])
        (State (trace st @ spawn_events prompt line (next_pid st)) (Suc (next_pid st)))"
    by (rule generic_step_parallel)
next
  assume "process_loop fuel w script prompt True [] st = Returns (children, st1)"
  then show "process fuel w script prompt True st =
      Returns (State (trace st1 @ concat (map (\<lambda>cp. drain_events w (childPid cp)) children))
                     (next_pid st1))"
    by (simp add: process.simps fold_report_exit)
next
  assume "\<forall>l\<in>set lines. generic_line l"
  then show "process fuel w lines prompt True st =
      Returns (State (trace st
                  @ concat (map2 (spawn_events prompt) lines
                       [next_pid st..<next_pid st + length lines])
                  @ [Prompt prompt]
                  @ concat (map (drain_events w) [next_pid st..<next_pid st + length lines]))
                (next_pid st + length lines))"
    by (rule process_parallel_generic)
next
  assume "process fuel w script prompt True st = Returns st2"
  then show "run_ok st {#} st2" by (rule process_returns_run_ok)
qed

theorem parallel_commands_drain_in_spawn_order_witness:
  "generic_line ''ls -l'' \<and> generic_line ''echo hi''
   \<and> process_loop 0 demo_world [''ls -l'', ''echo hi''] ''> '' True [] initial_state =
     Returns ([ChildProcess 0, ChildProcess 1],
       State
         [Prompt ''> '', Running [''ls'', ''-l''], ForkNexec 0 [''ls'', ''-l''],
          Prompt ''> '', Running [''echo'', ''hi''], ForkNexec 1 [''echo'', ''hi''],
          Prompt ''> ''] 2)
   \<and> process 0 demo_world [''ls -l'', ''echo hi''] ''> '' True initial_state =
     Returns (State
       [Prompt ''> '', Running [''ls'', ''-l''], ForkNexec 0 [''ls'', ''-l''],
        Prompt ''> '', Running [''echo'', ''hi''], ForkNexec 1 [''echo'', ''hi''],
        Prompt ''> '',
        Wait 0, ExitCode 0, Wait 1, ExitCode 2] 2)
   \<and> run_ok initial_state {#}
       (State
         [Prompt ''> '', Running [''ls'', ''-l''], ForkNexec 0 [''ls'', ''-l''],
          Prompt ''> '', Running [''echo'', ''hi''], ForkNexec 1 [''echo'', ''hi''],
          Prompt ''> '',
          Wait 0, ExitCode 0, Wait 1, ExitCode 2] 2)"
proof -
  have g: "generic_line ''ls -l''" "generic_line ''echo hi''"
    by (rule generic_examples)+
  then have all: "\<forall>l\<in>set [''ls -l'', ''echo hi'']. generic_line l" by simp
  note inst = parallel_commands_drain_in_spawn_order
    [where line = "''ls -l''" and rest = "[''echo hi'']" and childList = "[]"
       and script = "[''ls -l'', ''echo hi'']" and lines = "[''ls -l'', ''echo hi'']"
       and fuel = 0 and w = demo_world and prompt = "''> ''" and st = initial_state]
  have loop: "process_loop 0 demo_world [''ls -l'', ''echo hi''] ''> '' True [] initial_state =
     Returns ([ChildProcess 0, ChildProcess 1],
       State
         [Prompt ''> '', Running [''ls'', ''-l''], ForkNexec 0 [''ls'', ''-l''],
          Prompt ''> '', Running [''echo'', ''hi''], ForkNexec 1 [''echo'', ''hi''],
          Prompt ''> ''] 2)"
  proof -
    from inst g(1)
    have first: "process_loop 0 demo_world [''ls -l'', ''echo hi''] ''> '' True [] initial_state =
        process_loop 0 demo_world [''echo hi''] ''> '' True
          ([] @ [ChildProcess (next_pid initial_state)])
          (State (trace initial_state @ spawn_events ''> '' ''ls -l'' (next_pid initial_state))
             (Suc (next_pid initial_state)))"
      by blast
    show ?thesis
      unfolding first generic_step_parallel [OF g(2)]
      by (simp add: process_loop.simps(1) spawn_events_def split_examples emit_def
            initial_state_def)
  qed
  from inst all
  have "process 0 demo_world [''ls -l'', ''echo hi''] ''> '' True initial_state =
      Returns (State (trace initial_state
                  @ concat (map2 (spawn_events ''> '') [''ls -l'', ''echo hi'']
                       [next_pid initial_state..<next_pid initial_state
                          + length [''ls -l'', ''echo hi'']])
                  @ [Prompt ''> '']
                  @ concat (map (drain_events demo_world)
                       [next_pid initial_state..<next_pid initial_state
                          + length [''ls -l'', ''echo hi'']]))
                (next_pid initial_state + length [''ls -l'', ''echo hi'']))"
    by blast
  then have run: "process 0 demo_world [''ls -l'', ''echo hi''] ''> '' True initial_state =
     Returns (State
       [Prompt ''> '', Running [''ls'', ''-l''], ForkNexec 0 [''ls'', ''-l''],
        Prompt ''> '', Running [''echo'', ''hi''], ForkNexec 1 [''echo'', ''hi''],
        Prompt ''> '',
        Wait 0, ExitCode 0, Wait 1, ExitCode 2] 2)"
    by (simp add: spawn_events_def drain_events_def split_examples demo_world_def
          initial_state_def)
  with inst have "run_ok initial_state {#}
       (State
         [Prompt ''> '', Running [''ls'', ''-l''], ForkNexec 0 [''ls'', ''-l''],
          Prompt ''> '', Running [''echo'', ''hi''], ForkNexec 1 [''echo'', ''hi''],
          Prompt ''> '',
          Wait 0, ExitCode 0, Wait 1, ExitCode 2] 2)"
    by blast
  with g loop run show ?thesis by simp
qed

text \<open>
  Claim C3 does not hold of the code. A line of white space only is not empty, does not
  start with \<^verbatim>\<open>#\<close> and is not \<^verbatim>\<open>exit\<close>, so it reaches \<^verbatim>\<open>split\<close>; it has no word, and the loop
  then reads \<^verbatim>\<open>argList[0]\<close> of an empty vector.
\<close>

theorem blank_line_reaches_dispatch_with_no_word:
  "'' '' \<noteq> ''exit'' \<and> '' '' \<noteq> [] \<and> hd '' '' \<noteq> CHR ''#''
   \<and> split '' '' = []
   \<and> process 0 demo_world ['' '', ''ls -l''] ''> '' False initial_state =
       Faults IndexOutOfRange (State [Prompt ''> ''] 0)"
  by (simp add: process.simps process_loop.simps split_examples vec_at_def emit_def
        initial_state_def Let_def)

text \<open>
  Claim C4 does not hold of the code. A line that is a composite verb alone has one word;
  nothing checks for the second one and nothing is reported: the loop reads \<^verbatim>\<open>argList[1]\<close>
  of a vector of size 1, in either mode. The read is undefined behaviour; the model marks
  it with the fault \<open>IndexOutOfRange\<close> and says nothing of what the program does after it.
\<close>

theorem composite_verb_alone_indexes_out_of_range:
  "split ''SERIAL'' = [''SERIAL'']
   \<and> vec_at (split ''SERIAL'') 1 = Inl IndexOutOfRange
   \<and> process 1 demo_world [''SERIAL'', ''ls -l''] ''> '' False initial_state =
       Faults IndexOutOfRange (State [Prompt ''> ''] 0)
   \<and> split ''PARALLEL'' = [''PARALLEL'']
   \<and> vec_at (split ''PARALLEL'') 1 = Inl IndexOutOfRange
   \<and> process 1 demo_world [''PARALLEL'', ''ls -l''] ''> '' True initial_state =
       Faults IndexOutOfRange (State [Prompt ''> ''] 0)"
  by (simp add: process.simps process_loop.simps split_examples vec_at_def emit_def
        initial_state_def Let_def)

text \<open>
  Claim C5. The two URLs of the spec are decomposed as the spec says: an explicit port is
  returned, and without one the port is \<^verbatim>\<open>80\<close>.
\<close>

theorem breakDownURL_spec_examples:
  "breakDownURL ''http://localhost:8080/a/b.txt'' = Inr (''localhost'', ''8080'', ''/a/b.txt'')
   \<and> breakDownURL ''http://example.org/index.html''
       = Inr (''example.org'', ''80'', ''/index.html'')"
  by (simp add: breakDownURL_def find_chr_def find_str_def add_sz_def sub_sz_def substr_def
        npos_def)

text \<open>
  Claim C6 does not hold of the code. The host ends at the first colon after its start
  wherever that colon is: with a colon in the path and no port, the host runs into the
  path and the port is what follows the colon.
\<close>

theorem breakDownURL_colon_in_path:
  "breakDownURL ''http://example.org/a:b'' = Inr (''example.org/a'', ''b'', ''/a:b'')"
  by (simp add: breakDownURL_def find_chr_def find_str_def add_sz_def sub_sz_def substr_def
        npos_def)

text \<open>
  Claim C7, as amended. \<open>breakDownURL\<close> does not look whether \<^verbatim>\<open>//\<close> was found: when it was
  not, \<^verbatim>\<open>npos + 2\<close> wraps to 1 and the host is taken to start at index 1. For a string without
  \<^verbatim>\<open>//\<close> (the search gives \<^verbatim>\<open>npos\<close>, see \<open>find_str_npos_iff\<close>; the string is shorter than
  \<^verbatim>\<open>npos\<close>, as every \<^verbatim>\<open>std::string\<close> is) the call fails, with the
  exception of \<^verbatim>\<open>substr\<close>, exactly when the string has no \<^verbatim>\<open>/\<close> at index 1 or later;
  otherwise it returns a decomposition. The interpreter never resolves such a string as a
  URL: it does not start with \<^verbatim>\<open>http://\<close>, so \<open>processScript\<close> opens it as a local file.
\<close>

theorem breakDownURL_without_separator:
  assumes nosep: "find_str ''//'' 0 url = npos" and len: "length url < npos"
  shows "(isl (breakDownURL url) \<longleftrightarrow> find_chr CHR ''/'' 1 url = npos)
       \<and> processScript fuel w url parallel st
           = process fuel w (ifstream w url) [] parallel (emit (OpenFile url) st)"
proof
  have hs: "add_sz (find_str ''//'' 0 url) 2 = 1"
    by (simp add: nosep add_sz_def npos_def)
  have pb: "find_chr CHR ''/'' 1 url = npos
      \<or> (1 \<le> find_chr CHR ''/'' 1 url \<and> find_chr CHR ''/'' 1 url < length url)"
    unfolding find_chr_def by (rule find_str_bound) simp
  have cb: "find_chr CHR '':'' 1 url = npos
      \<or> (1 \<le> find_chr CHR '':'' 1 url \<and> find_chr CHR '':'' 1 url < length url)"
    unfolding find_chr_def by (rule find_str_bound) simp
  show "isl (breakDownURL url) \<longleftrightarrow> find_chr CHR ''/'' 1 url = npos"
  proof (cases "find_chr CHR ''/'' 1 url = npos")
    case True
    with len show ?thesis
      by (simp add: breakDownURL_def hs Let_def substr_def split: sum.split)
  next
    case False
    with pb have p: "find_chr CHR ''/'' 1 url < length url" by simp
    then have ne: "url \<noteq> []" by auto
    show ?thesis
    proof (cases "find_chr CHR '':'' 1 url = npos")
      case True
      with False p ne show ?thesis
        by (simp add: breakDownURL_def hs Let_def substr_def)
    next
      case c: False
      with cb have "find_chr CHR '':'' 1 url < length url" by simp
      moreover from this len
      have "add_sz (find_chr CHR '':'' 1 url) 1 = find_chr CHR '':'' 1 url + 1"
        by (simp add: add_sz_def npos_def)
      ultimately show ?thesis using False c p ne
        by (simp add: breakDownURL_def hs Let_def substr_def)
    qed
  qed
next
  have "find_str ''http://'' 0 url \<noteq> 0"
    using http_prefix_has_separator [of url] nosep by (auto simp: npos_def)
  then show "processScript fuel w url parallel st
           = process fuel w (ifstream w url) [] parallel (emit (OpenFile url) st)"
    by (simp add: processScript.simps)
qed

theorem breakDownURL_without_separator_witness:
  "find_str ''//'' 0 ''scripts'' = npos \<and> length ''scripts'' < npos
   \<and> find_chr CHR ''/'' 1 ''scripts'' = npos
   \<and> breakDownURL ''scripts'' = Inl SubstrOutOfRange
   \<and> processScript 0 demo_world ''scripts'' False initial_state
       = Returns (State [OpenFile ''scripts'', Prompt []] 0)"
proof -
  have h1: "find_str ''//'' 0 ''scripts'' = npos" by (simp add: find_str_def)
  have h2: "length ''scripts'' < npos" by (simp add: npos_def)
  have h3: "find_chr CHR ''/'' 1 ''scripts'' = npos"
    by (simp add: find_chr_def find_str_def)
  from breakDownURL_without_separator [OF h1 h2, of 0 demo_world False initial_state] h3
  have "isl (breakDownURL ''scripts'')"
    and "processScript 0 demo_world ''scripts'' False initial_state
           = process 0 demo_world (ifstream demo_world ''scripts'') [] False
               (emit (OpenFile ''scripts'') initial_state)"
    by simp_all
  moreover have "breakDownURL ''scripts'' = Inl SubstrOutOfRange"
    by (simp add: breakDownURL_def find_chr_def find_str_def add_sz_def sub_sz_def
          substr_def npos_def)
  ultimately show ?thesis using h1 h2 h3
    by (simp add: process.simps process_loop.simps ifstream_def demo_world_def emit_def
          initial_state_def)
qed

text \<open>
  Claim C7 as the spec states it fails: a string without \<^verbatim>\<open>//\<close> but with a \<^verbatim>\<open>/\<close> is
  decomposed, with a host that lacks the first character.
\<close>

theorem breakDownURL_without_separator_guesses:
  "find_str ''//'' 0 ''localhost/a'' = npos
   \<and> breakDownURL ''localhost/a'' = Inr (''ocalhost'', ''80'', ''/a'')"
  by (simp add: breakDownURL_def find_chr_def find_str_def add_sz_def sub_sz_def substr_def
        npos_def)

text \<open>
  Claim C8. A composite-verb line with a script reference, in a loop of either mode and
  with any list of children, has the nested script run by \<open>process\<close>, on the lines of the
  file or of the body of the response, with the empty prompt and in the mode of the verb
  (\<^verbatim>\<open>PARALLEL\<close> gives parallel, \<^verbatim>\<open>SERIAL\<close> gives serial): the mode of the enclosing loop does
  not appear in the call. When the nested script has returned, the enclosing loop goes on
  with its own list of children exactly as it was before the line, and every child forked
  by the nested script, at any depth, has by then been waited for exactly once, so none of
  them is left to, or shared with, the enclosing loop. For a nested script of generic
  command lines, from a local file or from a URL, the events are those of the verb's mode:
  with \<^verbatim>\<open>SERIAL\<close> each command is waited for before the next is read, with \<^verbatim>\<open>PARALLEL\<close> all
  are forked and then waited for in fork order, before the enclosing loop reads its next
  line.
\<close>

theorem composite_verb_mode_and_group:
  assumes "line \<noteq> ''exit''" "line \<noteq> []" "hd line \<noteq> CHR ''#''"
    and "split line = verb # fileOrUrl # args"
    and "verb = ''SERIAL'' \<or> verb = ''PARALLEL''"
  shows "process_loop (Suc fuel) w (line # rest) prompt parallel childList st =
     (case (if find_str ''http://'' 0 fileOrUrl = 0 then
              (case setupHTTPStream w fileOrUrl (emit (Prompt prompt) st) of
                 Inl e \<Rightarrow> Faults e (emit (Prompt prompt) st)
               | Inr (client, st1) \<Rightarrow> process fuel w client [] (verb = ''PARALLEL'') st1)
            else process fuel w (ifstream w fileOrUrl) [] (verb = ''PARALLEL'')
                   (emit (OpenFile fileOrUrl) (emit (Prompt prompt) st))) of
        Returns st2 \<Rightarrow> process_loop (Suc fuel) w rest prompt parallel childList st2
      | Faults e s \<Rightarrow> Faults e s
      | OutOfFuel \<Rightarrow> OutOfFuel)
   \<and> (\<forall>st2. processScript fuel w fileOrUrl (verb = ''PARALLEL'') (emit (Prompt prompt) st)
              = Returns st2
           \<longrightarrow> run_ok (emit (Prompt prompt) st) {#} st2)
   \<and> (find_str ''http://'' 0 fileOrUrl \<noteq> 0
        \<and> (\<forall>l\<in>set (ifstream w fileOrUrl). generic_line l) \<longrightarrow>
      process_loop (Suc fuel) w (line # rest) prompt parallel childList st =
      process_loop (Suc fuel) w rest prompt parallel childList
        (State (trace st @ [Prompt prompt, OpenFile fileOrUrl]
                  @ nested_events w (verb = ''PARALLEL'') (ifstream w fileOrUrl) (next_pid st))
               (next_pid st + length (ifstream w fileOrUrl))))
   \<and> (find_str ''http://'' 0 fileOrUrl = 0
        \<and> breakDownURL fileOrUrl = Inr (hostname, port, path)
        \<and> (\<forall>l\<in>set (http_body w hostname port path). generic_line l) \<longrightarrow>
      process_loop (Suc fuel) w (line # rest) prompt parallel childList st =
      process_loop (Suc fuel) w rest prompt parallel childList
        (State (trace st @ [Prompt prompt, HttpGet hostname port path]
                  @ nested_events w (verb = ''PARALLEL'') (http_body w hostname port path)
                      (next_pid st))
               (next_pid st + length (http_body w hostname port path))))"
proof (intro conjI impI allI)
  note step = composite_step [OF assms, of fuel w rest prompt parallel childList st]
  show "process_loop (Suc fuel) w (line # rest) prompt parallel childList st =
     (case (if find_str ''http://'' 0 fileOrUrl = 0 then
              (case setupHTTPStream w fileOrUrl (emit (Prompt prompt) st) of
                 Inl e \<Rightarrow> Faults e (emit (Prompt prompt) st)
               | Inr (client, st1) \<Rightarrow> process fuel w client [] (verb = ''PARALLEL'') st1)
            else process fuel w (ifstream w fileOrUrl) [] (verb = ''PARALLEL'')
                   (emit (OpenFile fileOrUrl) (emit (Prompt prompt) st))) of
        Returns st2 \<Rightarrow> process_loop (Suc fuel) w rest prompt parallel childList st2
      | Faults e s \<Rightarrow> Faults e s
      | OutOfFuel \<Rightarrow> OutOfFuel)"
    unfolding step processScript.simps ..
next
  fix st2
  assume "processScript fuel w fileOrUrl (verb = ''PARALLEL'') (emit (Prompt prompt) st)
              = Returns st2"
  then show "run_ok (emit (Prompt prompt) st) {#} st2" by (rule processScript_inv)
next
  assume a: "find_str ''http://'' 0 fileOrUrl \<noteq> 0
        \<and> (\<forall>l\<in>set (ifstream w fileOrUrl). generic_line l)"
  then have g: "\<forall>l\<in>set (ifstream w fileOrUrl). generic_line l" by simp
  from a show "process_loop (Suc fuel) w (line # rest) prompt parallel childList st =
      process_loop (Suc fuel) w rest prompt parallel childList
        (State (trace st @ [Prompt prompt, OpenFile fileOrUrl]
                  @ nested_events w (verb = ''PARALLEL'') (ifstream w fileOrUrl) (next_pid st))
               (next_pid st + length (ifstream w fileOrUrl)))"
    unfolding composite_step [OF assms]
    by (simp add: processScript.simps process_nested_generic [OF g] emit_def)
next
  assume a: "find_str ''http://'' 0 fileOrUrl = 0
        \<and> breakDownURL fileOrUrl = Inr (hostname, port, path)
        \<and> (\<forall>l\<in>set (http_body w hostname port path). generic_line l)"
  then have g: "\<forall>l\<in>set (http_body w hostname port path). generic_line l"
    and b: "breakDownURL fileOrUrl = Inr (hostname, port, path)" by simp_all
  from a show "process_loop (Suc fuel) w (line # rest) prompt parallel childList st =
      process_loop (Suc fuel) w rest prompt parallel childList
        (State (trace st @ [Prompt prompt, HttpGet hostname port path]
                  @ nested_events w (verb = ''PARALLEL'') (http_body w hostname port path)
                      (next_pid st))
               (next_pid st + length (http_body w hostname port path)))"
    unfolding composite_step [OF assms]
    by (simp add: processScript.simps setupHTTPStream_body [OF b]
          process_nested_generic [OF g] emit_def)
qed

theorem composite_verb_mode_and_group_witness:
  "split ''SERIAL child.sh'' = [''SERIAL'', ''child.sh'']
   \<and> process_loop 1 demo_world [''SERIAL child.sh'', ''pwd''] ''> '' True [ChildProcess 0]
       (State [] 1) =
     Returns ([ChildProcess 0, ChildProcess 3],
       State
         [Prompt ''> '', OpenFile ''child.sh'',
          Prompt [], Running [''echo'', ''a''], ForkNexec 1 [''echo'', ''a''], Wait 1,
          ExitCode 2,
          Prompt [], Running [''echo'', ''b''], ForkNexec 2 [''echo'', ''b''], Wait 2,
          ExitCode 0,
          Prompt [],
          Prompt ''> '', Running [''pwd''], ForkNexec 3 [''pwd''],
          Prompt ''> ''] 4)
   \<and> run_ok (State [Prompt ''> ''] 1) {#}
       (State
         [Prompt ''> '', OpenFile ''child.sh'',
          Prompt [], Running [''echo'', ''a''], ForkNexec 1 [''echo'', ''a''], Wait 1,
          ExitCode 2,
          Prompt [], Running [''echo'', ''b''], ForkNexec 2 [''echo'', ''b''], Wait 2,
          ExitCode 0,
          Prompt []] 3)
   \<and> split ''PARALLEL child.sh'' = [''PARALLEL'', ''child.sh'']
   \<and> process_loop 1 demo_world [''PARALLEL child.sh'', ''pwd''] ''> '' False []
       (State [] 1) =
     Returns ([],
       State
         [Prompt ''> '', OpenFile ''child.sh'',
          Prompt [], Running [''echo'', ''a''], ForkNexec 1 [''echo'', ''a''],
          Prompt [], Running [''echo'', ''b''], ForkNexec 2 [''echo'', ''b''],
          Prompt [],
          Wait 1, ExitCode 2, Wait 2, ExitCode 0,
          Prompt ''> '', Running [''pwd''], ForkNexec 3 [''pwd''], Wait 3, ExitCode 0,
          Prompt ''> ''] 4)
   \<and> breakDownURL ''http://localhost:8080/s.sh'' = Inr (''localhost'', ''8080'', ''/s.sh'')
   \<and> process_loop 1 web_world [''PARALLEL http://localhost:8080/s.sh''] ''> '' False []
       (State [] 0) =
     Returns ([],
       State
         [Prompt ''> '', HttpGet ''localhost'' ''8080'' ''/s.sh'',
          Prompt [], Running [''echo'', ''a''], ForkNexec 0 [''echo'', ''a''],
          Prompt [], Running [''echo'', ''b''], ForkNexec 1 [''echo'', ''b''],
          Prompt [],
          Wait 0, ExitCode 0, Wait 1, ExitCode 2,
          Prompt ''> ''] 2)"
proof -
  have sp1: "split ''SERIAL child.sh'' = ''SERIAL'' # ''child.sh'' # []"
    by (simp add: split_examples)
  have sp2: "split ''PARALLEL child.sh'' = ''PARALLEL'' # ''child.sh'' # []"
    by (simp add: split_composite_examples)
  have sp3: "split ''PARALLEL http://localhost:8080/s.sh''
               = ''PARALLEL'' # ''http://localhost:8080/s.sh'' # []"
    by (simp add: split_composite_examples)
  note serial_run = composite_verb_mode_and_group [OF _ _ _ sp1, THEN conjunct2, THEN conjunct1, rule_format]
  note serial_file = composite_verb_mode_and_group [OF _ _ _ sp1, THEN conjunct2, THEN conjunct2, THEN conjunct1, rule_format]
  note parallel_file = composite_verb_mode_and_group [OF _ _ _ sp2, THEN conjunct2, THEN conjunct2, THEN conjunct1, rule_format]
  note parallel_url = composite_verb_mode_and_group [OF _ _ _ sp3, THEN conjunct2, THEN conjunct2, THEN conjunct2, rule_format]
  have nested: "processScript 0 demo_world ''child.sh'' False (State [Prompt ''> ''] 1) =
      Returns (State
         [Prompt ''> '', OpenFile ''child.sh'',
          Prompt [], Running [''echo'', ''a''], ForkNexec 1 [''echo'', ''a''], Wait 1,
          ExitCode 2,
          Prompt [], Running [''echo'', ''b''], ForkNexec 2 [''echo'', ''b''], Wait 2,
          ExitCode 0,
          Prompt []] 3)"
    by (simp add: processScript.simps process.simps find_str_def npos_def ifstream_def
          demo_world_def emit_def process_loop.simps(1) serial_events_def split_examples
          generic_step_serial [OF generic_examples(3)]
          generic_step_serial [OF generic_examples(4)])
  have "process_loop (Suc 0) demo_world [''SERIAL child.sh'', ''pwd''] ''> '' True
       [ChildProcess 0] (State [] 1) =
     Returns ([ChildProcess 0, ChildProcess 3],
       State
         [Prompt ''> '', OpenFile ''child.sh'',
          Prompt [], Running [''echo'', ''a''], ForkNexec 1 [''echo'', ''a''], Wait 1,
          ExitCode 2,
          Prompt [], Running [''echo'', ''b''], ForkNexec 2 [''echo'', ''b''], Wait 2,
          ExitCode 0,
          Prompt [],
          Prompt ''> '', Running [''pwd''], ForkNexec 3 [''pwd''],
          Prompt ''> ''] 4)"
    by (subst serial_file)
       (simp_all add: find_str_def npos_def nested_events_def serial_events_def ifstream_def
          demo_world_def split_examples generic_examples emit_def process_loop.simps(1)
          spawn_events_def generic_step_parallel [OF generic_examples(5)])
  then have a: "process_loop 1 demo_world [''SERIAL child.sh'', ''pwd''] ''> '' True
       [ChildProcess 0] (State [] 1) =
     Returns ([ChildProcess 0, ChildProcess 3],
       State
         [Prompt ''> '', OpenFile ''child.sh'',
          Prompt [], Running [''echo'', ''a''], ForkNexec 1 [''echo'', ''a''], Wait 1,
          ExitCode 2,
          Prompt [], Running [''echo'', ''b''], ForkNexec 2 [''echo'', ''b''], Wait 2,
          ExitCode 0,
          Prompt [],
          Prompt ''> '', Running [''pwd''], ForkNexec 3 [''pwd''],
          Prompt ''> ''] 4)"
    by simp
  have "run_ok (emit (Prompt ''> '') (State [] 1)) {#}
       (State
         [Prompt ''> '', OpenFile ''child.sh'',
          Prompt [], Running [''echo'', ''a''], ForkNexec 1 [''echo'', ''a''], Wait 1,
          ExitCode 2,
          Prompt [], Running [''echo'', ''b''], ForkNexec 2 [''echo'', ''b''], Wait 2,
          ExitCode 0,
          Prompt []] 3)"
    by (rule serial_run [where fuel = 0 and w = demo_world])
       (use nested in \<open>simp_all add: emit_def\<close>)
  then have b: "run_ok (State [Prompt ''> ''] 1) {#}
       (State
         [Prompt ''> '', OpenFile ''child.sh'',
          Prompt [], Running [''echo'', ''a''], ForkNexec 1 [''echo'', ''a''], Wait 1,
          ExitCode 2,
          Prompt [], Running [''echo'', ''b''], ForkNexec 2 [''echo'', ''b''], Wait 2,
          ExitCode 0,
          Prompt []] 3)"
    by (simp add: emit_def)
  have "process_loop (Suc 0) demo_world [''PARALLEL child.sh'', ''pwd''] ''> '' False []
       (State [] 1) =
     Returns ([],
       State
         [Prompt ''> '', OpenFile ''child.sh'',
          Prompt [], Running [''echo'', ''a''], ForkNexec 1 [''echo'', ''a''],
          Prompt [], Running [''echo'', ''b''], ForkNexec 2 [''echo'', ''b''],
          Prompt [],
          Wait 1, ExitCode 2, Wait 2, ExitCode 0,
          Prompt ''> '', Running [''pwd''], ForkNexec 3 [''pwd''], Wait 3, ExitCode 0,
          Prompt ''> ''] 4)"
    by (subst parallel_file)
       (simp_all add: find_str_def npos_def nested_events_def spawn_events_def
          drain_events_def ifstream_def demo_world_def split_examples generic_examples
          emit_def process_loop.simps(1) serial_events_def
          generic_step_serial [OF generic_examples(5)])
  then have c: "process_loop 1 demo_world [''PARALLEL child.sh'', ''pwd''] ''> '' False []
       (State [] 1) =
     Returns ([],
       State
         [Prompt ''> '', OpenFile ''child.sh'',
          Prompt [], Running [''echo'', ''a''], ForkNexec 1 [''echo'', ''a''],
          Prompt [], Running [''echo'', ''b''], ForkNexec 2 [''echo'', ''b''],
          Prompt [],
          Wait 1, ExitCode 2, Wait 2, ExitCode 0,
          Prompt ''> '', Running [''pwd''], ForkNexec 3 [''pwd''], Wait 3, ExitCode 0,
          Prompt ''> ''] 4)"
    by simp
  have "process_loop (Suc 0) web_world [''PARALLEL http://localhost:8080/s.sh''] ''> '' False []
       (State [] 0) =
     Returns ([],
       State
         [Prompt ''> '', HttpGet ''localhost'' ''8080'' ''/s.sh'',
          Prompt [], Running [''echo'', ''a''], ForkNexec 0 [''echo'', ''a''],
          Prompt [], Running [''echo'', ''b''], ForkNexec 1 [''echo'', ''b''],
          Prompt [],
          Wait 0, ExitCode 0, Wait 1, ExitCode 2,
          Prompt ''> ''] 2)"
    by (subst parallel_url [where hostname = "''localhost''" and port = "''8080''"
            and path = "''/s.sh''"])
       (simp_all add: web_script_generic http_body_def nested_events_def spawn_events_def
          drain_events_def web_world_def split_examples generic_examples
          emit_def process_loop.simps(1))
  then have d: "process_loop 1 web_world [''PARALLEL http://localhost:8080/s.sh''] ''> '' False []
       (State [] 0) =
     Returns ([],
       State
         [Prompt ''> '', HttpGet ''localhost'' ''8080'' ''/s.sh'',
          Prompt [], Running [''echo'', ''a''], ForkNexec 0 [''echo'', ''a''],
          Prompt [], Running [''echo'', ''b''], ForkNexec 1 [''echo'', ''b''],
          Prompt [],
          Wait 0, ExitCode 0, Wait 1, ExitCode 2,
          Prompt ''> ''] 2)"
    by simp
  have e: "breakDownURL ''http://localhost:8080/s.sh'' = Inr (''localhost'', ''8080'', ''/s.sh'')"
    using web_script_generic by blast
  show ?thesis
    using a b c d e by (simp add: split_examples split_composite_examples)
qed

text \<open>
  Claim C9. A line that is empty or starts with \<^verbatim>\<open>#\<close> is skipped in either mode, for any
  fuel and wherever it stands: all the loop does for it is write the prompt and read it.
  Nothing is split, echoed, forked or waited for, and the list of children is unchanged.
\<close>

theorem skipped_line_spawns_nothing:
  assumes "line = [] \<or> hd line = CHR ''#''"
  shows "process_loop fuel w (line # rest) prompt parallel childList st =
         process_loop fuel w rest prompt parallel childList (emit (Prompt prompt) st)"
  using assms by (auto simp: process_loop.simps Let_def)

theorem skipped_line_spawns_nothing_witness:
  "hd ''# list the files'' = CHR ''#''
   \<and> process_loop 0 demo_world [''# list the files'', []] ''> '' True [] initial_state =
       Returns ([], State [Prompt ''> '', Prompt ''> '', Prompt ''> ''] 0)
   \<and> process_loop 0 demo_world [''# list the files'', []] ''> '' False [] initial_state =
       Returns ([], State [Prompt ''> '', Prompt ''> '', Prompt ''> ''] 0)"
proof -
  have h1: "''# list the files'' = [] \<or> hd ''# list the files'' = CHR ''#''" by simp
  have h2: "([]::string) = [] \<or> hd ([]::string) = CHR ''#''" by simp
  show ?thesis
    unfolding skipped_line_spawns_nothing [OF h1] skipped_line_spawns_nothing [OF h2]
    by (simp add: process_loop.simps emit_def initial_state_def)
qed

text \<open>
  Claim C10. At the line \<^verbatim>\<open>exit\<close> the loop returns after the prompt and the read: the line is
  not split and nothing is echoed or forked for it, and the list of children is as it was.
  The lines after it are never read, so the loop and \<open>process\<close> do on a script with an
  \<^verbatim>\<open>exit\<close> line what they do on the lines before it alone, the drain included. In
  parallel mode, after generic command lines, the children forked before the \<^verbatim>\<open>exit\<close> are
  waited for and reported, in the order of the forks.
\<close>

theorem exit_ends_loop_and_drains:
  "process_loop fuel w (''exit'' # rest) prompt parallel childList st
     = Returns (childList, emit (Prompt prompt) st)
   \<and> process_loop fuel w (pre @ ''exit'' # rest) prompt parallel childList st
     = process_loop fuel w pre prompt parallel childList st
   \<and> process fuel w (pre @ ''exit'' # rest) prompt parallel st
     = process fuel w pre prompt parallel st
   \<and> ((\<forall>l\<in>set pre. generic_line l) \<longrightarrow>
      process fuel w (pre @ ''exit'' # rest) prompt True st =
      Returns (State (trace st
                  @ concat (map2 (spawn_events prompt) pre
                       [next_pid st..<next_pid st + length pre])
                  @ [Prompt prompt]
                  @ concat (map (drain_events w) [next_pid st..<next_pid st + length pre]))
                (next_pid st + length pre)))"
proof (intro conjI impI)
  show "process_loop fuel w (''exit'' # rest) prompt parallel childList st
     = Returns (childList, emit (Prompt prompt) st)"
    by (simp add: process_loop.simps Let_def)
  show "process_loop fuel w (pre @ ''exit'' # rest) prompt parallel childList st
     = process_loop fuel w pre prompt parallel childList st"
    by (rule loop_stops_at_exit)
  show eq: "process fuel w (pre @ ''exit'' # rest) prompt parallel st
     = process fuel w pre prompt parallel st" for parallel
    by (simp add: process.simps loop_stops_at_exit)
  assume "\<forall>l\<in>set pre. generic_line l"
  then show "process fuel w (pre @ ''exit'' # rest) prompt True st =
      Returns (State (trace st
                  @ concat (map2 (spawn_events prompt) pre
                       [next_pid st..<next_pid st + length pre])
                  @ [Prompt prompt]
                  @ concat (map (drain_events w) [next_pid st..<next_pid st + length pre]))
                (next_pid st + length pre))"
    unfolding eq by (rule process_parallel_generic)
qed

theorem exit_ends_loop_and_drains_witness:
  "generic_line ''ls -l'' \<and> generic_line ''echo hi''
   \<and> process 0 demo_world [''ls -l'', ''echo hi'', ''exit'', ''pwd''] ''> '' True initial_state =
     Returns (State
       [Prompt ''> '', Running [''ls'', ''-l''], ForkNexec 0 [''ls'', ''-l''],
        Prompt ''> '', Running [''echo'', ''hi''], ForkNexec 1 [''echo'', ''hi''],
        Prompt ''> '',
        Wait 0, ExitCode 0, Wait 1, ExitCode 2] 2)"
proof -
  have g: "generic_line ''ls -l''" "generic_line ''echo hi''"
    by (rule generic_examples)+
  then have all: "\<forall>l\<in>set [''ls -l'', ''echo hi'']. generic_line l" by simp
  from all exit_ends_loop_and_drains
    [where pre = "[''ls -l'', ''echo hi'']" and rest = "[''pwd'']" and fuel = 0
       and w = demo_world and prompt = "''> ''" and st = initial_state]
  have "process 0 demo_world ([''ls -l'', ''echo hi''] @ ''exit'' # [''pwd'']) ''> '' True
          initial_state =
      Returns (State (trace initial_state
                  @ concat (map2 (spawn_events ''> '') [''ls -l'', ''echo hi'']
                       [next_pid initial_state..<next_pid initial_state
                          + length [''ls -l'', ''echo hi'']])
                  @ [Prompt ''> '']
                  @ concat (map (drain_events demo_world)
                       [next_pid initial_state..<next_pid initial_state
                          + length [''ls -l'', ''echo hi'']]))
                (next_pid initial_state + length [''ls -l'', ''echo hi'']))"
    by blast
  with g show ?thesis
    by (simp add: spawn_events_def drain_events_def split_examples demo_world_def
          initial_state_def)
qed

end
